theory Spec2Isabelle
  imports Complex_Main
begin

section \<open>Optimal power flow: admittance matrices and Pyomo models\<close>

text \<open>
  The development embeds \<^verbatim>\<open>opf_corrected.py\<close> and \<^verbatim>\<open>opf_utils.py\<close>.
  The module globals \<^verbatim>\<open>N_BUS\<close>, \<^verbatim>\<open>BUS_DATA\<close> and \<^verbatim>\<open>LINE_DATA\<close> are
  arguments of the functions that read them, and are also given as constants with the
  values of the source. Python floats are elements of a carrier type with the arithmetic
  operations the code uses; results that need algebraic laws are stated for a field
  (exact arithmetic), so rounding, overflow and NaN are outside the model.
\<close>

subsection \<open>Errors\<close>

text \<open>
  The exceptions of the source, as values. \<open>SolverError\<close> stands for whatever the call of
  an external solver raises. \<open>Unmodelled\<close> is no exception: it marks the places where the
  behaviour of the modelling library is not part of the embedding.
\<close>

datatype error =
    ZeroDivisionError
  | IndexError
  | KeyError nat
  | AttributeError string
  | ValueError
  | Unmodelled
  | SolverError string

definition bind_err :: "error + 'a \<Rightarrow> ('a \<Rightarrow> error + 'b) \<Rightarrow> error + 'b" where
  "bind_err r f = (case r of Inl e \<Rightarrow> Inl e | Inr v \<Rightarrow> f v)"

subsection \<open>Two-dimensional arrays\<close>

type_synonym 'a matrix = "'a list list"

text \<open>\<^verbatim>\<open>np.zeros((n, n))\<close>\<close>

definition zeros :: "nat \<Rightarrow> 'a::zero matrix" where
  "zeros n = replicate n (replicate n 0)"

text \<open>
  An integer index along an axis of length \<open>n\<close>: a negative index counts from the end,
  and an index outside \<open>-n .. n-1\<close> raises IndexError.
\<close>

definition array_index :: "nat \<Rightarrow> int \<Rightarrow> error + nat" where
  "array_index n i =
     (if 0 \<le> i \<and> i < int n then Inr (nat i)
      else if - int n \<le> i \<and> i < 0 then Inr (nat (i + int n))
      else Inl IndexError)"

definition getitem :: "'a matrix \<Rightarrow> nat \<Rightarrow> nat \<Rightarrow> 'a" where
  "getitem M a c = M ! a ! c"

definition setitem :: "'a matrix \<Rightarrow> nat \<Rightarrow> nat \<Rightarrow> 'a \<Rightarrow> 'a matrix" where
  "setitem M a c v = M[a := (M ! a)[c := v]]"

text \<open>\<^verbatim>\<open>M[i, j] += v\<close> and \<^verbatim>\<open>M[i, j] -= v\<close>\<close>

definition iadd :: "'a::plus matrix \<Rightarrow> int \<Rightarrow> int \<Rightarrow> 'a \<Rightarrow> error + 'a matrix" where
  "iadd M i j v =
     bind_err (array_index (length M) i) (\<lambda>a.
     bind_err (array_index (length (M ! a)) j) (\<lambda>c.
     Inr (setitem M a c (getitem M a c + v))))"

definition isub :: "'a::minus matrix \<Rightarrow> int \<Rightarrow> int \<Rightarrow> 'a \<Rightarrow> error + 'a matrix" where
  "isub M i j v =
     bind_err (array_index (length M) i) (\<lambda>a.
     bind_err (array_index (length (M ! a)) j) (\<lambda>c.
     Inr (setitem M a c (getitem M a c - v))))"

subsection \<open>The admittance builder\<close>

text \<open>A line record \<open>(from_bus, to_bus, resistance, reactance)\<close>.\<close>

type_synonym 'a line = "int \<times> int \<times> 'a \<times> 'a"

text \<open>
  The body of the loop of \<^verbatim>\<open>build_admittance_matrices\<close> for one line. Dividing a
  Python float by zero raises ZeroDivisionError.
\<close>

definition stamp_line ::
  "'a::{zero,plus,minus,uminus,power,inverse} line \<Rightarrow> 'a matrix \<times> 'a matrix
     \<Rightarrow> error + ('a matrix \<times> 'a matrix)" where
  "stamp_line l GB =
     (case l of (i, j, r, x) \<Rightarrow> case GB of (G, B) \<Rightarrow>
        let z_sq = r ^ 2 + x ^ 2 in
        if z_sq = 0 then Inl ZeroDivisionError
        else
          let g_ij = r / z_sq;
              b_ij = - x / z_sq
          in
            bind_err (iadd G i i g_ij) (\<lambda>G.
            bind_err (iadd G j j g_ij) (\<lambda>G.
            bind_err (isub G i j g_ij) (\<lambda>G.
            bind_err (isub G j i g_ij) (\<lambda>G.
            bind_err (iadd B i i b_ij) (\<lambda>B.
            bind_err (iadd B j j b_ij) (\<lambda>B.
            bind_err (isub B i j b_ij) (\<lambda>B.
            bind_err (isub B j i b_ij) (\<lambda>B.
            Inr (G, B))))))))))"

fun admittance_loop ::
  "'a::{zero,plus,minus,uminus,power,inverse} line list \<Rightarrow> 'a matrix \<times> 'a matrix
     \<Rightarrow> error + ('a matrix \<times> 'a matrix)" where
  "admittance_loop [] GB = Inr GB"
| "admittance_loop (l # ls) GB = bind_err (stamp_line l GB) (admittance_loop ls)"

definition build_admittance_matrices ::
  "nat \<Rightarrow> 'a::{zero,plus,minus,uminus,power,inverse} line list
     \<Rightarrow> error + ('a matrix \<times> 'a matrix)" where
  "build_admittance_matrices n_bus line_data =
     admittance_loop line_data (zeros n_bus, zeros n_bus)"


text \<open>The module constants of the source.\<close>

definition N_BUS :: nat where
  "N_BUS = 5"

definition LINE_DATA :: "real line list" where
  "LINE_DATA =
     [(0, 1, 0.02, 0.06),
      (0, 2, 0.08, 0.24),
      (1, 2, 0.06, 0.18),
      (1, 3, 0.06, 0.18),
      (1, 4, 0.04, 0.12),
      (2, 3, 0.01, 0.03),
      (3, 4, 0.08, 0.24)]"

subsection \<open>The bus table\<close>

text \<open>
  One row of \<^verbatim>\<open>BUS_DATA\<close>. The cost coefficients, keyed \<^verbatim>\<open>'a'\<close>, \<^verbatim>\<open>'b'\<close> and
  \<^verbatim>\<open>'c'\<close> in the source, are the fields \<open>cost_a\<close>, \<open>cost_b\<close> and \<open>cost_c\<close>.
\<close>

record bus =
  PGmax :: real
  PGmin :: real
  QGmax :: real
  QGmin :: real
  Pload :: real
  Qload :: real
  Vmax :: real
  Vmin :: real
  cost_a :: real
  cost_b :: real
  cost_c :: real

text \<open>
  \<^verbatim>\<open>GEN_BUSES\<close> is computed when the module is loaded and reads \<^verbatim>\<open>BUS_DATA[i]\<close> for
  every \<open>i\<close> in \<^verbatim>\<open>range(N_BUS)\<close>, so the builders only ever run with a table that has
  all these keys: the table is a function, read below \<open>N_BUS\<close> only.
\<close>

definition BUS_DATA :: "nat \<Rightarrow> bus" where
  "BUS_DATA = nth
     [\<lparr>PGmax = 2.0, PGmin = 0.0, QGmax = 1.5, QGmin = - 1.5,
       Pload = 0.0, Qload = 0.0, Vmax = 1.06, Vmin = 1.06,
       cost_a = 0.0, cost_b = 14.0, cost_c = 0.0\<rparr>,
      \<lparr>PGmax = 0.8, PGmin = 0.0, QGmax = 0.6, QGmin = - 0.4,
       Pload = 0.2, Qload = 0.1, Vmax = 1.05, Vmin = 0.95,
       cost_a = 15.0, cost_b = 16.0, cost_c = 10.0\<rparr>,
      \<lparr>PGmax = 0.5, PGmin = 0.0, QGmax = 0.4, QGmin = - 0.3,
       Pload = 0.45, Qload = 0.15, Vmax = 1.05, Vmin = 0.95,
       cost_a = 18.0, cost_b = 20.0, cost_c = 12.0\<rparr>,
      \<lparr>PGmax = 0.0, PGmin = 0.0, QGmax = 0.0, QGmin = 0.0,
       Pload = 0.40, Qload = 0.05, Vmax = 1.05, Vmin = 0.95,
       cost_a = 0.0, cost_b = 0.0, cost_c = 0.0\<rparr>,
      \<lparr>PGmax = 0.0, PGmin = 0.0, QGmax = 0.0, QGmin = 0.0,
       Pload = 0.60, Qload = 0.10, Vmax = 1.05, Vmin = 0.95,
       cost_a = 0.0, cost_b = 0.0, cost_c = 0.0\<rparr>]"

definition GEN_BUSES :: "nat \<Rightarrow> (nat \<Rightarrow> bus) \<Rightarrow> nat list" where
  "GEN_BUSES n_bus bus_data = filter (\<lambda>i. PGmax (bus_data i) > 0) [0..<n_bus]"

definition LOAD_BUSES :: "nat \<Rightarrow> (nat \<Rightarrow> bus) \<Rightarrow> nat list" where
  "LOAD_BUSES n_bus bus_data =
     filter (\<lambda>i. i \<notin> set (GEN_BUSES n_bus bus_data)) [0..<n_bus]"

subsection \<open>Pyomo models\<close>

text \<open>
  Expressions over indexed variables, as the overloaded operators of the modelling
  library build them. A variable is referred to by the name of its component and its
  index. An immutable \<^verbatim>\<open>Param\<close> yields its number when indexed, so it enters an
  expression as a constant.
\<close>

datatype expr =
    Num real
  | VarE string nat
  | AddE expr expr
  | SubE expr expr
  | MulE expr expr
  | PowE expr nat
  | CosE expr
  | SinE expr

text \<open>The value of an expression at an assignment of the variables.\<close>

fun eval :: "(string \<Rightarrow> nat \<Rightarrow> real) \<Rightarrow> expr \<Rightarrow> real" where
  "eval \<sigma> (Num c) = c"
| "eval \<sigma> (VarE name i) = \<sigma> name i"
| "eval \<sigma> (AddE e1 e2) = eval \<sigma> e1 + eval \<sigma> e2"
| "eval \<sigma> (SubE e1 e2) = eval \<sigma> e1 - eval \<sigma> e2"
| "eval \<sigma> (MulE e1 e2) = eval \<sigma> e1 * eval \<sigma> e2"
| "eval \<sigma> (PowE e k) = eval \<sigma> e ^ k"
| "eval \<sigma> (CosE e) = cos (eval \<sigma> e)"
| "eval \<sigma> (SinE e) = sin (eval \<sigma> e)"

text \<open>Python's \<^verbatim>\<open>sum\<close> over a generator: it starts from 0 and adds the terms in order.\<close>

definition py_sum :: "expr list \<Rightarrow> expr" where
  "py_sum terms = foldl AddE (Num 0) terms"

text \<open>
  The data of one indexed variable: its \<^verbatim>\<open>value\<close> (\<open>None\<close> when it has none), whether it
  is fixed, and its bounds.
\<close>

record var_data =
  var_value :: "real option"
  fixed :: bool
  lb :: "real option"
  ub :: "real option"

definition new_var :: "real option \<Rightarrow> var_data" where
  "new_var v = \<lparr>var_value = v, fixed = False, lb = None, ub = None\<rparr>"

definition fix_var :: "real \<Rightarrow> var_data \<Rightarrow> var_data" where
  "fix_var v x = x\<lparr>var_value := Some v, fixed := True\<rparr>"

definition setlb :: "real \<Rightarrow> var_data \<Rightarrow> var_data" where
  "setlb b x = x\<lparr>lb := Some b\<rparr>"

definition setub :: "real \<Rightarrow> var_data \<Rightarrow> var_data" where
  "setub b x = x\<lparr>ub := Some b\<rparr>"

datatype var_domain = DomReals | DomNonNegativeReals

datatype sense = minimize | maximize

text \<open>
  The components of a model. Every indexed component of the source is indexed by
  \<^verbatim>\<open>m.buses = range(N_BUS)\<close>, so its data is a list with one entry per bus. A constraint
  is an equality between two expressions.
\<close>

datatype component =
    SetC "nat list"
  | ParamC "real list"
  | VarC var_domain "var_data list"
  | ObjectiveC expr sense
  | ConstraintC "(expr \<times> expr) list"

text \<open>A \<^verbatim>\<open>ConcreteModel\<close>: its name and its components by attribute name, in declaration order.\<close>

record model =
  model_name :: string
  components :: "(string \<times> component) list"

definition getattr :: "model \<Rightarrow> string \<Rightarrow> error + component" where
  "getattr m name =
     (case map_of (components m) name of
        None \<Rightarrow> Inl (AttributeError name)
      | Some c \<Rightarrow> Inr c)"

text \<open>\<^verbatim>\<open>xs[i].f(...)\<close> on the data of an indexed variable.\<close>

definition update_at :: "nat \<Rightarrow> ('a \<Rightarrow> 'a) \<Rightarrow> 'a list \<Rightarrow> 'a list" where
  "update_at i f xs = xs[i := f (xs ! i)]"

subsection \<open>The AC model\<close>

text \<open>
  The initial values of \<^verbatim>\<open>Pg\<close> are given by a dictionary with the keys 0 to 4; an index
  without a key starts without a value.
\<close>

definition Pg_initialize :: "real \<Rightarrow> nat \<rightharpoonup> real" where
  "Pg_initialize total_load = [0 \<mapsto> total_load, 1 \<mapsto> 0.1, 2 \<mapsto> 0.1, 3 \<mapsto> 0, 4 \<mapsto> 0]"

definition ac_p_balance_rule ::
  "nat \<Rightarrow> real matrix \<Rightarrow> real matrix \<Rightarrow> real list \<Rightarrow> nat \<Rightarrow> expr \<times> expr" where
  "ac_p_balance_rule n_bus G B Pload_param i =
     (let Pflow = py_sum (map (\<lambda>k.
            MulE (MulE (VarE ''V'' i) (VarE ''V'' k))
              (AddE
                (MulE (Num (getitem G i k)) (CosE (SubE (VarE ''theta'' i) (VarE ''theta'' k))))
                (MulE (Num (getitem B i k)) (SinE (SubE (VarE ''theta'' i) (VarE ''theta'' k))))))
            [0..<n_bus])
      in (SubE (VarE ''Pg'' i) (Num (Pload_param ! i)), Pflow))"

definition ac_q_balance_rule ::
  "nat \<Rightarrow> real matrix \<Rightarrow> real matrix \<Rightarrow> real list \<Rightarrow> nat \<Rightarrow> expr \<times> expr" where
  "ac_q_balance_rule n_bus G B Qload_param i =
     (let Qflow = py_sum (map (\<lambda>k.
            MulE (MulE (VarE ''V'' i) (VarE ''V'' k))
              (SubE
                (MulE (Num (getitem G i k)) (SinE (SubE (VarE ''theta'' i) (VarE ''theta'' k))))
                (MulE (Num (getitem B i k)) (CosE (SubE (VarE ''theta'' i) (VarE ''theta'' k))))))
            [0..<n_bus])
      in (SubE (VarE ''Qg'' i) (Num (Qload_param ! i)), Qflow))"

definition build_ac_model :: "nat \<Rightarrow> (nat \<Rightarrow> bus) \<Rightarrow> real line list \<Rightarrow> error + model" where
  "build_ac_model n_bus bus_data line_data =
     bind_err (build_admittance_matrices n_bus line_data) (\<lambda>(G, B).
       let buses = [0..<n_bus];
           Pload_param = map (\<lambda>i. Pload (bus_data i)) [0..<n_bus];
           Qload_param = map (\<lambda>i. Qload (bus_data i)) [0..<n_bus];
           total_load = sum_list (map (\<lambda>i. Pload (bus_data i)) [0..<n_bus]);
           Pg = map (\<lambda>i. new_var (Pg_initialize total_load i)) buses;
           Qg = map (\<lambda>i. new_var (Some 0.0)) buses;
           V = map (\<lambda>i. new_var (Some (if i = 0 then 1.06 else 1.0))) buses;
           theta = map (\<lambda>i. new_var (Some 0.0)) buses
       in
         if n_bus = 0 then Inl (KeyError 0)
         else
           let V = update_at 0 (fix_var 1.06) V;
               theta = update_at 0 (fix_var 0.0) theta;
               Pg = foldl (\<lambda>vs i. update_at i (fix_var 0.0) vs) Pg (LOAD_BUSES n_bus bus_data);
               Qg = foldl (\<lambda>vs i. update_at i (fix_var 0.0) vs) Qg (LOAD_BUSES n_bus bus_data);
               Pg = foldl (\<lambda>vs i. update_at i
                      (\<lambda>x. setub (PGmax (bus_data i)) (setlb (PGmin (bus_data i)) x)) vs)
                      Pg [0..<n_bus];
               Qg = foldl (\<lambda>vs i. update_at i
                      (\<lambda>x. setub (QGmax (bus_data i)) (setlb (QGmin (bus_data i)) x)) vs)
                      Qg [0..<n_bus];
               V = foldl (\<lambda>vs i. update_at i
                      (\<lambda>x. setub (Vmax (bus_data i)) (setlb (Vmin (bus_data i)) x)) vs)
                      V [0..<n_bus];
               theta = foldl (\<lambda>vs i. update_at i (\<lambda>x. setub pi (setlb (- pi) x)) vs)
                      theta [0..<n_bus];
               obj = ObjectiveC
                      (py_sum (map (\<lambda>i.
                         AddE
                           (AddE (MulE (Num (cost_a (bus_data i))) (PowE (VarE ''Pg'' i) 2))
                                 (MulE (Num (cost_b (bus_data i))) (VarE ''Pg'' i)))
                           (Num (cost_c (bus_data i))))
                         (GEN_BUSES n_bus bus_data)))
                      minimize;
               p_balance = ConstraintC (map (ac_p_balance_rule n_bus G B Pload_param) buses);
               q_balance = ConstraintC (map (ac_q_balance_rule n_bus G B Qload_param) buses)
           in Inr \<lparr>model_name = ''AC_OPF'',
                   components =
                     [(''buses'', SetC buses),
                      (''Pload'', ParamC Pload_param),
                      (''Qload'', ParamC Qload_param),
                      (''Pg'', VarC DomReals Pg),
                      (''Qg'', VarC DomReals Qg),
                      (''V'', VarC DomNonNegativeReals V),
                      (''theta'', VarC DomReals theta),
                      (''obj'', obj),
                      (''p_balance'', p_balance),
                      (''q_balance'', q_balance)]\<rparr>)"

subsection \<open>The DC model\<close>

definition dc_p_balance_rule :: "nat \<Rightarrow> real matrix \<Rightarrow> real list \<Rightarrow> nat \<Rightarrow> expr \<times> expr" where
  "dc_p_balance_rule n_bus B Pload_param i =
     (let Pflow = py_sum (map (\<lambda>k.
            MulE (Num (getitem B i k)) (SubE (VarE ''theta'' i) (VarE ''theta'' k)))
            [0..<n_bus])
      in (SubE (VarE ''Pg'' i) (Num (Pload_param ! i)), Pflow))"

definition build_dc_model :: "nat \<Rightarrow> (nat \<Rightarrow> bus) \<Rightarrow> real line list \<Rightarrow> error + model" where
  "build_dc_model n_bus bus_data line_data =
     bind_err (build_admittance_matrices n_bus line_data) (\<lambda>(G, B).
       let buses = [0..<n_bus];
           Pload_param = map (\<lambda>i. Pload (bus_data i)) [0..<n_bus];
           Pg = map (\<lambda>i. new_var (Some 0.0)) buses;
           theta = map (\<lambda>i. new_var (Some 0.0)) buses
       in
         if n_bus = 0 then Inl (KeyError 0)
         else
           let theta = update_at 0 (fix_var 0.0) theta;
               Pg = foldl (\<lambda>vs i. update_at i (fix_var 0.0) vs) Pg (LOAD_BUSES n_bus bus_data);
               Pg = foldl (\<lambda>vs i. update_at i
                      (\<lambda>x. setub (PGmax (bus_data i)) (setlb (PGmin (bus_data i)) x)) vs)
                      Pg [0..<n_bus];
               theta = foldl (\<lambda>vs i. update_at i (\<lambda>x. setub pi (setlb (- pi) x)) vs)
                      theta [0..<n_bus];
               obj = ObjectiveC
                      (py_sum (map (\<lambda>i. MulE (Num (cost_b (bus_data i))) (VarE ''Pg'' i))
                         (GEN_BUSES n_bus bus_data)))
                      minimize;
               p_balance = ConstraintC (map (dc_p_balance_rule n_bus B Pload_param) buses)
           in Inr \<lparr>model_name = ''DC_OPF'',
                   components =
                     [(''buses'', SetC buses),
                      (''Pload'', ParamC Pload_param),
                      (''Pg'', VarC DomReals Pg),
                      (''theta'', VarC DomReals theta),
                      (''obj'', obj),
                      (''p_balance'', p_balance)]\<rparr>)"

subsection \<open>What a solver may return\<close>




subsection \<open>Printed output and exported data\<close>

text \<open>
  A printed line is a sequence of pieces: literal text, and floats with the format they
  are printed in (the digits of a float are not computed). The output of a function is
  the list of the lines it has printed, one per call of \<^verbatim>\<open>print\<close>, together with its
  result or the exception that ended it.
\<close>

datatype piece =
    Text string
  | Float real
  | Fixed real nat
  | FixedLeft real nat nat

type_synonym 'a printed = "piece list list \<times> (error + 'a)"

definition say :: "piece list \<Rightarrow> unit printed" where
  "say l = ([l], Inr ())"


definition then_do :: "'a printed \<Rightarrow> ('a \<Rightarrow> 'b printed) \<Rightarrow> 'b printed" where
  "then_do p f =
     (case p of
        (out, Inl e) \<Rightarrow> (out, Inl e)
      | (out, Inr v) \<Rightarrow> (case f v of (out', r) \<Rightarrow> (out @ out', r)))"








subsection \<open>Reading a model\<close>








subsection \<open>\<^verbatim>\<open>print_results\<close> of \<^verbatim>\<open>opf_corrected.py\<close>\<close>






subsection \<open>The reporters of \<^verbatim>\<open>opf_utils.py\<close>\<close>













section \<open>Notions of the statements and proofs\<close>

subsection \<open>The admittance builder\<close>

text \<open>Arrays of shape \<open>n \<times> n\<close>.\<close>

definition square :: "nat \<Rightarrow> 'a matrix \<Rightarrow> bool" where
  "square n M = (length M = n \<and> (\<forall>a<n. length (M ! a) = n))"

text \<open>One in-place update, as a function of the old entry.\<close>

definition bump :: "bool \<Rightarrow> ('a \<Rightarrow> 'a) \<Rightarrow> 'a \<Rightarrow> 'a" where
  "bump hit f v = (if hit then f v else v)"

text \<open>The four updates of one matrix.\<close>

definition stamp :: "'a::{plus,minus} matrix \<Rightarrow> int \<Rightarrow> int \<Rightarrow> 'a \<Rightarrow> error + 'a matrix" where
  "stamp M i j v =
     bind_err (iadd M i i v) (\<lambda>M.
     bind_err (iadd M j j v) (\<lambda>M.
     bind_err (isub M i j v) (\<lambda>M.
     isub M j i v)))"

definition stamped :: "nat \<Rightarrow> nat \<Rightarrow> 'a::{plus,minus} \<Rightarrow> nat \<Rightarrow> nat \<Rightarrow> 'a \<Rightarrow> 'a" where
  "stamped a c v p q old =
     bump (p = c \<and> q = a) (\<lambda>w. w - v)
       (bump (p = a \<and> q = c) (\<lambda>w. w - v)
         (bump (p = c \<and> q = c) (\<lambda>w. w + v)
           (bump (p = a \<and> q = a) (\<lambda>w. w + v) old)))"

definition symmetric :: "nat \<Rightarrow> 'a matrix \<Rightarrow> bool" where
  "symmetric n M = (square n M \<and> (\<forall>p<n. \<forall>q<n. getitem M p q = getitem M q p))"

text \<open>
  The specification of the builder, in its own words: every line \<open>(i, j, r, x)\<close> has the
  conductance \<open>g = r / (r\<^sup>2 + x\<^sup>2)\<close> and the susceptance \<open>b = - x / (r\<^sup>2 + x\<^sup>2)\<close>; it
  adds its value to the diagonal entries of its two buses and subtracts it from the two
  entries that join them, and the lines add up. \<open>incidence\<close> counts how often (with sign)
  a line between the buses \<open>a\<close> and \<open>c\<close> touches the entry \<open>(p, q)\<close>, \<open>bus_of\<close> is the
  bus an in-range index denotes, and \<open>nodal_sum\<close> is the entry \<open>(p, q)\<close> of the resulting
  matrix.
\<close>

definition incidence :: "nat \<Rightarrow> nat \<Rightarrow> nat \<Rightarrow> nat \<Rightarrow> int" where
  "incidence a c p q =
     of_bool (p = a \<and> q = a) + of_bool (p = c \<and> q = c)
       - of_bool (p = a \<and> q = c) - of_bool (p = c \<and> q = a)"

definition bus_of :: "nat \<Rightarrow> int \<Rightarrow> nat" where
  "bus_of n i = (if 0 \<le> i then nat i else nat (i + int n))"

definition conductance :: "'a::field \<Rightarrow> 'a \<Rightarrow> 'a" where
  "conductance r x = r / (r ^ 2 + x ^ 2)"

definition susceptance :: "'a::field \<Rightarrow> 'a \<Rightarrow> 'a" where
  "susceptance r x = - x / (r ^ 2 + x ^ 2)"

definition nodal_sum ::
  "('a \<Rightarrow> 'a \<Rightarrow> 'a) \<Rightarrow> nat \<Rightarrow> 'a::field line list \<Rightarrow> nat \<Rightarrow> nat \<Rightarrow> 'a" where
  "nodal_sum y n ls p q =
     (\<Sum>(i, j, r, x)\<leftarrow>ls. of_int (incidence (bus_of n i) (bus_of n j) p q) * y r x)"

text \<open>A well-formed line: its impedance is not zero and its bus indices are in range.\<close>

definition valid_line :: "nat \<Rightarrow> 'a::field line \<Rightarrow> bool" where
  "valid_line n l = (case l of (i, j, r, x) \<Rightarrow>
     r ^ 2 + x ^ 2 \<noteq> 0 \<and> - int n \<le> i \<and> i < int n \<and> - int n \<le> j \<and> j < int n)"

subsection \<open>A network of two buses\<close>




subsection \<open>Reading the reports\<close>














subsection \<open>Example models and solvers\<close>








section \<open>Lemmas\<close>

subsection \<open>The admittance builder\<close>

lemma square_zeros: "square n (zeros n)"
  by (simp add: square_def zeros_def)

lemma getitem_zeros: "a < n \<Longrightarrow> c < n \<Longrightarrow> getitem (zeros n) a c = 0"
  by (simp add: getitem_def zeros_def)

lemma square_setitem: "square n M \<Longrightarrow> square n (setitem M a c v)"
  unfolding square_def setitem_def
  by (metis length_list_update nth_list_update_eq nth_list_update_neq)

lemma getitem_setitem:
  "square n M \<Longrightarrow> a < n \<Longrightarrow> c < n \<Longrightarrow> p < n \<Longrightarrow> q < n \<Longrightarrow>
   getitem (setitem M a c v) p q = (if p = a \<and> q = c then v else getitem M p q)"
  by (auto simp: square_def setitem_def getitem_def nth_list_update)

lemma array_index_less: "array_index n i = Inr a \<Longrightarrow> a < n"
  by (auto simp: array_index_def split: if_splits)

lemma bind_err_assoc:
  "bind_err (bind_err m f) g = bind_err m (\<lambda>v. bind_err (f v) g)"
  by (simp add: bind_err_def split: sum.splits)

lemma bind_err_Inr_iff:
  "bind_err m f = Inr w \<longleftrightarrow> (\<exists>v. m = Inr v \<and> f v = Inr w)"
  by (simp add: bind_err_def split: sum.splits)

lemma iadd_Inr:
  assumes "square n M" and "iadd M i j v = Inr M'"
  shows "\<exists>a c. array_index n i = Inr a \<and> array_index n j = Inr c \<and> square n M' \<and>
           (\<forall>p<n. \<forall>q<n. getitem M' p q =
              bump (p = a \<and> q = c) (\<lambda>w. w + v) (getitem M p q))"
proof -
  have len: "length M = n" using assms(1) by (simp add: square_def)
  from assms(2) obtain a where a: "array_index n i = Inr a"
    and r: "bind_err (array_index (length (M ! a)) j)
              (\<lambda>c. Inr (setitem M a c (getitem M a c + v))) = Inr M'"
    by (auto simp: iadd_def len bind_err_Inr_iff)
  have an: "a < n" using a by (rule array_index_less)
  then have "length (M ! a) = n" using assms(1) by (simp add: square_def)
  with r obtain c where c: "array_index n j = Inr c"
    and M': "M' = setitem M a c (getitem M a c + v)"
    by (auto simp: bind_err_Inr_iff)
  have cn: "c < n" using c by (rule array_index_less)
  have "square n M'" by (simp add: M' square_setitem assms(1))
  moreover have "\<forall>p<n. \<forall>q<n. getitem M' p q =
       bump (p = a \<and> q = c) (\<lambda>w. w + v) (getitem M p q)"
    using an cn assms(1) by (simp add: M' getitem_setitem bump_def)
  ultimately show ?thesis using a c by blast
qed

lemma isub_Inr:
  assumes "square n M" and "isub M i j v = Inr M'"
  shows "\<exists>a c. array_index n i = Inr a \<and> array_index n j = Inr c \<and> square n M' \<and>
           (\<forall>p<n. \<forall>q<n. getitem M' p q =
              bump (p = a \<and> q = c) (\<lambda>w. w - v) (getitem M p q))"
proof -
  have len: "length M = n" using assms(1) by (simp add: square_def)
  from assms(2) obtain a where a: "array_index n i = Inr a"
    and r: "bind_err (array_index (length (M ! a)) j)
              (\<lambda>c. Inr (setitem M a c (getitem M a c - v))) = Inr M'"
    by (auto simp: isub_def len bind_err_Inr_iff)
  have an: "a < n" using a by (rule array_index_less)
  then have "length (M ! a) = n" using assms(1) by (simp add: square_def)
  with r obtain c where c: "array_index n j = Inr c"
    and M': "M' = setitem M a c (getitem M a c - v)"
    by (auto simp: bind_err_Inr_iff)
  have cn: "c < n" using c by (rule array_index_less)
  have "square n M'" by (simp add: M' square_setitem assms(1))
  moreover have "\<forall>p<n. \<forall>q<n. getitem M' p q =
       bump (p = a \<and> q = c) (\<lambda>w. w - v) (getitem M p q)"
    using an cn assms(1) by (simp add: M' getitem_setitem bump_def)
  ultimately show ?thesis using a c by blast
qed

lemma stamp_Inr:
  assumes "square n M" and "stamp M i j v = Inr M'"
  shows "\<exists>a c. array_index n i = Inr a \<and> array_index n j = Inr c \<and> square n M' \<and>
           (\<forall>p<n. \<forall>q<n. getitem M' p q = stamped a c v p q (getitem M p q))"
proof -
  from assms(2) obtain M1 M2 M3 where
    1: "iadd M i i v = Inr M1" and 2: "iadd M1 j j v = Inr M2"
    and 3: "isub M2 i j v = Inr M3" and 4: "isub M3 j i v = Inr M'"
    by (auto simp: stamp_def bind_err_Inr_iff)
  from iadd_Inr[OF assms(1) 1] obtain a where a: "array_index n i = Inr a"
    and s1: "square n M1"
    and g1: "\<forall>p<n. \<forall>q<n. getitem M1 p q = bump (p = a \<and> q = a) (\<lambda>w. w + v) (getitem M p q)"
    by auto
  from iadd_Inr[OF s1 2] obtain c where c: "array_index n j = Inr c"
    and s2: "square n M2"
    and g2: "\<forall>p<n. \<forall>q<n. getitem M2 p q = bump (p = c \<and> q = c) (\<lambda>w. w + v) (getitem M1 p q)"
    by auto
  from isub_Inr[OF s2 3] a c have s3: "square n M3"
    and g3: "\<forall>p<n. \<forall>q<n. getitem M3 p q = bump (p = a \<and> q = c) (\<lambda>w. w - v) (getitem M2 p q)"
    by auto
  from isub_Inr[OF s3 4] a c have s4: "square n M'"
    and g4: "\<forall>p<n. \<forall>q<n. getitem M' p q = bump (p = c \<and> q = a) (\<lambda>w. w - v) (getitem M3 p q)"
    by auto
  have "\<forall>p<n. \<forall>q<n. getitem M' p q = stamped a c v p q (getitem M p q)"
    unfolding stamped_def using g1 g2 g3 g4 by simp
  with a c s4 show ?thesis by blast
qed

lemma stamp_line_eq:
  "stamp_line (i, j, r, x) (G, B) =
     (if r ^ 2 + x ^ 2 = 0 then Inl ZeroDivisionError
      else bind_err (stamp G i j (r / (r ^ 2 + x ^ 2))) (\<lambda>G'.
           bind_err (stamp B i j (- x / (r ^ 2 + x ^ 2))) (\<lambda>B'. Inr (G', B'))))"
  by (simp add: stamp_line_def stamp_def bind_err_assoc Let_def)

lemma stamped_sym: "stamped a c v p q w = stamped a c v q p w"
proof (cases "a = c")
  case True
  then show ?thesis by (simp add: stamped_def conj_commute)
next
  case False
  then show ?thesis
    by (cases "p = a"; cases "p = c"; cases "q = a"; cases "q = c")
       (simp_all add: stamped_def bump_def)
qed

lemma stamp_line_Inr:
  assumes "square n G" and "square n B"
    and "stamp_line (i, j, r, x) (G, B) = Inr (G', B')"
  shows "r ^ 2 + x ^ 2 \<noteq> 0 \<and>
    (\<exists>a c. array_index n i = Inr a \<and> array_index n j = Inr c \<and>
       square n G' \<and> square n B' \<and>
       (\<forall>p<n. \<forall>q<n. getitem G' p q =
           stamped a c (r / (r ^ 2 + x ^ 2)) p q (getitem G p q)) \<and>
       (\<forall>p<n. \<forall>q<n. getitem B' p q =
           stamped a c (- x / (r ^ 2 + x ^ 2)) p q (getitem B p q)))"
proof -
  from assms(3) have z: "r ^ 2 + x ^ 2 \<noteq> 0"
    by (auto simp: stamp_line_eq split: if_splits)
  with assms(3) have G': "stamp G i j (r / (r ^ 2 + x ^ 2)) = Inr G'"
    and B': "stamp B i j (- x / (r ^ 2 + x ^ 2)) = Inr B'"
    by (auto simp: stamp_line_eq bind_err_Inr_iff)
  from stamp_Inr[OF assms(1) G'] stamp_Inr[OF assms(2) B'] z
  show ?thesis by auto
qed

lemma symmetric_zeros: "symmetric n (zeros n)"
  by (simp add: symmetric_def square_zeros getitem_zeros)

lemma stamp_line_symmetric:
  assumes "symmetric n G" and "symmetric n B"
    and "stamp_line l (G, B) = Inr (G', B')"
  shows "symmetric n G' \<and> symmetric n B'"
proof -
  obtain i j r x where l: "l = (i, j, r, x)" by (cases l) auto
  from assms have sq: "square n G" "square n B" by (simp_all add: symmetric_def)
  from stamp_line_Inr[OF sq assms(3)[unfolded l]] obtain a c where
    s: "square n G'" "square n B'"
    and g: "\<forall>p<n. \<forall>q<n. getitem G' p q = stamped a c (r / (r ^ 2 + x ^ 2)) p q (getitem G p q)"
    and b: "\<forall>p<n. \<forall>q<n. getitem B' p q = stamped a c (- x / (r ^ 2 + x ^ 2)) p q (getitem B p q)"
    by blast
  have "getitem G' p q = getitem G' q p" if "p < n" "q < n" for p q
    using that g assms(1) stamped_sym[of a c _ p q] by (simp add: symmetric_def)
  moreover have "getitem B' p q = getitem B' q p" if "p < n" "q < n" for p q
    using that b assms(2) stamped_sym[of a c _ p q] by (simp add: symmetric_def)
  ultimately show ?thesis using s by (simp add: symmetric_def)
qed

lemma admittance_loop_symmetric:
  "symmetric n G \<Longrightarrow> symmetric n B \<Longrightarrow> admittance_loop ls (G, B) = Inr (G', B') \<Longrightarrow>
   symmetric n G' \<and> symmetric n B'"
proof (induction ls arbitrary: G B)
  case Nil
  then show ?case by simp
next
  case (Cons l ls)
  from Cons.prems(3) obtain G1 B1 where 1: "stamp_line l (G, B) = Inr (G1, B1)"
    and 2: "admittance_loop ls (G1, B1) = Inr (G', B')"
    by (auto simp: bind_err_Inr_iff)
  from stamp_line_symmetric[OF Cons.prems(1,2) 1] Cons.IH 2 show ?case by blast
qed

lemma array_index_bus_of: "array_index n i = Inr a \<Longrightarrow> a = bus_of n i"
  by (auto simp: array_index_def bus_of_def split: if_splits)

lemma stamped_field:
  "stamped a c (v::'a::field) p q w = w + of_int (incidence a c p q) * v"
  by (cases "p = a"; cases "p = c"; cases "q = a"; cases "q = c")
     (simp_all add: stamped_def bump_def incidence_def algebra_simps)

lemma admittance_loop_closed_form:
  fixes G B :: "'a::field matrix"
  shows "square n G \<Longrightarrow> square n B \<Longrightarrow> admittance_loop ls (G, B) = Inr (G', B') \<Longrightarrow>
   square n G' \<and> square n B' \<and>
   (\<forall>p<n. \<forall>q<n. getitem G' p q = getitem G p q + nodal_sum conductance n ls p q) \<and>
   (\<forall>p<n. \<forall>q<n. getitem B' p q = getitem B p q + nodal_sum susceptance n ls p q)"
proof (induction ls arbitrary: G B)
  case Nil
  then show ?case by (simp add: nodal_sum_def)
next
  case (Cons l ls)
  obtain i j r x where l: "l = (i, j, r, x)" by (cases l) auto
  from Cons.prems(3) obtain G1 B1 where 1: "stamp_line (i, j, r, x) (G, B) = Inr (G1, B1)"
    and 2: "admittance_loop ls (G1, B1) = Inr (G', B')"
    by (auto simp: bind_err_Inr_iff l)
  from stamp_line_Inr[OF Cons.prems(1,2) 1] obtain a c where
    a: "array_index n i = Inr a" and c: "array_index n j = Inr c"
    and s: "square n G1" "square n B1"
    and g: "\<forall>p<n. \<forall>q<n. getitem G1 p q = stamped a c (r / (r ^ 2 + x ^ 2)) p q (getitem G p q)"
    and b: "\<forall>p<n. \<forall>q<n. getitem B1 p q = stamped a c (- x / (r ^ 2 + x ^ 2)) p q (getitem B p q)"
    by blast
  have ab: "a = bus_of n i" "c = bus_of n j"
    using a c by (auto dest: array_index_bus_of)
  from Cons.IH[OF s 2] have IH: "square n G'" "square n B'"
    "\<forall>p<n. \<forall>q<n. getitem G' p q = getitem G1 p q + nodal_sum conductance n ls p q"
    "\<forall>p<n. \<forall>q<n. getitem B' p q = getitem B1 p q + nodal_sum susceptance n ls p q"
    by auto
  have "getitem G' p q = getitem G p q + nodal_sum conductance n (l # ls) p q"
    if "p < n" "q < n" for p q
    using that IH(3) g
    by (simp add: stamped_field ab l nodal_sum_def conductance_def)
  moreover have "getitem B' p q = getitem B p q + nodal_sum susceptance n (l # ls) p q"
    if "p < n" "q < n" for p q
    using that IH(4) b
    by (simp add: stamped_field ab l nodal_sum_def susceptance_def)
  ultimately show ?case using IH(1,2) by blast
qed

lemma build_closed_form:
  fixes G B :: "'a::field matrix"
  assumes "build_admittance_matrices n ls = Inr (G, B)" and "p < n" and "q < n"
  shows "G ! p ! q = nodal_sum conductance n ls p q"
    and "B ! p ! q = nodal_sum susceptance n ls p q"
  using admittance_loop_closed_form[OF square_zeros square_zeros, where ls=ls and G'=G and B'=B and n=n] assms
  by (simp_all add: build_admittance_matrices_def getitem_def[symmetric] getitem_zeros)

lemma build_square:
  fixes G B :: "'a::field matrix"
  assumes "build_admittance_matrices n ls = Inr (G, B)"
  shows "square n G" "square n B"
  using admittance_loop_closed_form[OF square_zeros square_zeros, where ls=ls and G'=G and B'=B and n=n] assms
  by (simp_all add: build_admittance_matrices_def)

lemma array_index_valid:
  "- int n \<le> i \<Longrightarrow> i < int n \<Longrightarrow> array_index n i = Inr (bus_of n i)"
  by (auto simp: array_index_def bus_of_def)


lemma iadd_valid:
  assumes "square n M" "array_index n i = Inr a" "array_index n j = Inr c"
  shows "\<exists>M'. iadd M i j v = Inr M' \<and> square n M'"
proof -
  have "a < n" using assms(2) by (rule array_index_less)
  then have "length M = n" "length (M ! a) = n" using assms(1) by (simp_all add: square_def)
  then show ?thesis
    using assms by (simp add: iadd_def bind_err_def square_setitem)
qed

lemma isub_valid:
  assumes "square n M" "array_index n i = Inr a" "array_index n j = Inr c"
  shows "\<exists>M'. isub M i j v = Inr M' \<and> square n M'"
proof -
  have "a < n" using assms(2) by (rule array_index_less)
  then have "length M = n" "length (M ! a) = n" using assms(1) by (simp_all add: square_def)
  then show ?thesis
    using assms by (simp add: isub_def bind_err_def square_setitem)
qed

lemma stamp_valid:
  assumes "square n M" "array_index n i = Inr a" "array_index n j = Inr c"
  shows "\<exists>M'. stamp M i j v = Inr M' \<and> square n M'"
proof -
  from iadd_valid[OF assms(1,2,2)] obtain M1 where 1: "iadd M i i v = Inr M1" "square n M1"
    by blast
  from iadd_valid[OF 1(2) assms(3,3)] obtain M2 where 2: "iadd M1 j j v = Inr M2" "square n M2"
    by blast
  from isub_valid[OF 2(2) assms(2,3)] obtain M3 where 3: "isub M2 i j v = Inr M3" "square n M3"
    by blast
  from isub_valid[OF 3(2) assms(3,2)] obtain M4 where 4: "isub M3 j i v = Inr M4" "square n M4"
    by blast
  show ?thesis using 1 2 3 4 by (simp add: stamp_def bind_err_def)
qed

lemma stamp_line_valid:
  fixes G B :: "'a::field matrix"
  assumes "square n G" "square n B" "valid_line n l"
  shows "\<exists>G' B'. stamp_line l (G, B) = Inr (G', B') \<and> square n G' \<and> square n B'"
proof -
  obtain i j r x where l: "l = (i, j, r, x)" by (cases l) auto
  from assms(3) have z: "r ^ 2 + x ^ 2 \<noteq> 0"
    and i: "array_index n i = Inr (bus_of n i)" and j: "array_index n j = Inr (bus_of n j)"
    by (simp_all add: valid_line_def l array_index_valid)
  from stamp_valid[OF assms(1) i j] obtain G' where
    G': "stamp G i j (r / (r ^ 2 + x ^ 2)) = Inr G'" "square n G'" by blast
  from stamp_valid[OF assms(2) i j] obtain B' where
    B': "stamp B i j (- x / (r ^ 2 + x ^ 2)) = Inr B'" "square n B'" by blast
  show ?thesis using z G' B' by (simp add: l stamp_line_eq bind_err_def)
qed

lemma admittance_loop_valid:
  fixes G B :: "'a::field matrix"
  shows "square n G \<Longrightarrow> square n B \<Longrightarrow> \<forall>l\<in>set ls. valid_line n l \<Longrightarrow>
    \<exists>G' B'. admittance_loop ls (G, B) = Inr (G', B')"
proof (induction ls arbitrary: G B)
  case Nil
  then show ?case by simp
next
  case (Cons l ls)
  from stamp_line_valid[OF Cons.prems(1,2), of l] Cons.prems(3) obtain G1 B1 where
    1: "stamp_line l (G, B) = Inr (G1, B1)" "square n G1" "square n B1"
    by auto
  from Cons.IH[OF 1(2,3)] Cons.prems(3) 1(1) show ?case
    by (simp add: bind_err_def)
qed

lemma build_valid:
  fixes ls :: "'a::field line list"
  assumes "\<forall>l\<in>set ls. valid_line n l"
  shows "\<exists>G B. build_admittance_matrices n ls = Inr (G, B)"
  using admittance_loop_valid[OF square_zeros square_zeros assms]
  by (simp add: build_admittance_matrices_def)





subsection \<open>The models\<close>

lemma eval_foldl_AddE:
  "eval \<sigma> (foldl AddE a ts) = eval \<sigma> a + sum_list (map (eval \<sigma>) ts)"
  by (induction ts arbitrary: a) simp_all

lemma eval_py_sum: "eval \<sigma> (py_sum ts) = sum_list (map (eval \<sigma>) ts)"
  by (simp add: py_sum_def eval_foldl_AddE)

lemma sum_list_upt: "sum_list (map f [0..<n]) = (\<Sum>k<n. f k)"
  by (simp add: interv_sum_list_conv_sum_set_nat atLeast0LessThan)

lemma eval_ac_p_balance_rule:
  "eval \<sigma> (fst (ac_p_balance_rule n G B pl i)) = \<sigma> ''Pg'' i - pl ! i"
  "eval \<sigma> (snd (ac_p_balance_rule n G B pl i)) =
     (\<Sum>k<n. \<sigma> ''V'' i * \<sigma> ''V'' k *
        (G ! i ! k * cos (\<sigma> ''theta'' i - \<sigma> ''theta'' k) +
         B ! i ! k * sin (\<sigma> ''theta'' i - \<sigma> ''theta'' k)))"
  by (simp_all add: ac_p_balance_rule_def eval_py_sum o_def sum_list_upt getitem_def)

lemma eval_ac_q_balance_rule:
  "eval \<sigma> (fst (ac_q_balance_rule n G B ql i)) = \<sigma> ''Qg'' i - ql ! i"
  "eval \<sigma> (snd (ac_q_balance_rule n G B ql i)) =
     (\<Sum>k<n. \<sigma> ''V'' i * \<sigma> ''V'' k *
        (G ! i ! k * sin (\<sigma> ''theta'' i - \<sigma> ''theta'' k) -
         B ! i ! k * cos (\<sigma> ''theta'' i - \<sigma> ''theta'' k)))"
  by (simp_all add: ac_q_balance_rule_def eval_py_sum o_def sum_list_upt getitem_def)

lemma eval_dc_p_balance_rule:
  "eval \<sigma> (fst (dc_p_balance_rule n B pl i)) = \<sigma> ''Pg'' i - pl ! i"
  "eval \<sigma> (snd (dc_p_balance_rule n B pl i)) =
     (\<Sum>k<n. B ! i ! k * (\<sigma> ''theta'' i - \<sigma> ''theta'' k))"
  by (simp_all add: dc_p_balance_rule_def eval_py_sum o_def sum_list_upt getitem_def)



lemma distinct_GEN_BUSES: "distinct (GEN_BUSES n bd)"
  by (simp add: GEN_BUSES_def)



lemma set_LOAD_BUSES: "set (LOAD_BUSES n bd) = {i. i < n \<and> \<not> PGmax (bd i) > 0}"
  by (auto simp: LOAD_BUSES_def GEN_BUSES_def)

text \<open>The components of a built model.\<close>

lemma build_ac_model_Inr:
  assumes "build_ac_model n bd ls = Inr m"
  shows "0 < n \<and> (\<exists>G B. build_admittance_matrices n ls = Inr (G, B))"
  using assms
  by (auto simp: build_ac_model_def bind_err_def Let_def split: sum.splits if_splits)

lemma build_ac_model_constraints:
  assumes "build_ac_model n bd ls = Inr m" and "build_admittance_matrices n ls = Inr (G, B)"
  shows "getattr m ''p_balance'' =
           Inr (ConstraintC (map (ac_p_balance_rule n G B (map (\<lambda>i. Pload (bd i)) [0..<n])) [0..<n]))"
    and "getattr m ''q_balance'' =
           Inr (ConstraintC (map (ac_q_balance_rule n G B (map (\<lambda>i. Qload (bd i)) [0..<n])) [0..<n]))"
  using assms
  by (auto simp: build_ac_model_def bind_err_def Let_def getattr_def split: if_splits)

lemma build_dc_model_Inr:
  assumes "build_dc_model n bd ls = Inr m"
  shows "0 < n \<and> (\<exists>G B. build_admittance_matrices n ls = Inr (G, B))"
  using assms
  by (auto simp: build_dc_model_def bind_err_def Let_def split: sum.splits if_splits)

lemma build_dc_model_constraints:
  assumes "build_dc_model n bd ls = Inr m" and "build_admittance_matrices n ls = Inr (G, B)"
  shows "getattr m ''p_balance'' =
           Inr (ConstraintC (map (dc_p_balance_rule n B (map (\<lambda>i. Pload (bd i)) [0..<n])) [0..<n]))"
  using assms
  by (auto simp: build_dc_model_def bind_err_def Let_def getattr_def split: if_splits)

lemma build_ac_model_valid:
  assumes "\<forall>l\<in>set ls. valid_line n l" and "0 < n"
  shows "\<exists>m. build_ac_model n bd ls = Inr m"
proof -
  from build_valid[OF assms(1)] obtain G B where "build_admittance_matrices n ls = Inr (G, B)"
    by blast
  then show ?thesis using assms(2)
    by (simp add: build_ac_model_def bind_err_def Let_def)
qed

lemma build_dc_model_valid:
  assumes "\<forall>l\<in>set ls. valid_line n l" and "0 < n"
  shows "\<exists>m. build_dc_model n bd ls = Inr m"
proof -
  from build_valid[OF assms(1)] obtain G B where "build_admittance_matrices n ls = Inr (G, B)"
    by blast
  then show ?thesis using assms(2)
    by (simp add: build_dc_model_def bind_err_def Let_def)
qed


lemma build_dc_model_obj:
  assumes "build_dc_model n bd ls = Inr m"
  shows "getattr m ''obj'' =
     Inr (ObjectiveC (py_sum (map (\<lambda>i. MulE (Num (cost_b (bd i))) (VarE ''Pg'' i))
                                (GEN_BUSES n bd))) minimize)"
  using assms
  by (auto simp: build_dc_model_def bind_err_def Let_def getattr_def split: if_splits sum.splits)








lemma valid_LINE_DATA: "\<forall>l\<in>set LINE_DATA. valid_line N_BUS l"
  by (simp add: LINE_DATA_def N_BUS_def valid_line_def)

lemma GEN_BUSES_cong:
  assumes "\<forall>i<n. PGmax (bd' i) = PGmax (bd i)"
  shows "GEN_BUSES n bd' = GEN_BUSES n bd"
  unfolding GEN_BUSES_def using assms by (intro filter_cong) simp_all

lemma GEN_BUSES_less: "i \<in> set (GEN_BUSES n bd) \<Longrightarrow> i < n"
  by (simp add: GEN_BUSES_def)







subsection \<open>The reporters\<close>





lemma then_do_Inl: "then_do (out, Inl e) f = (out, Inl e)"
  by (simp add: then_do_def)

lemma fst_then_do_prefix: "\<exists>rest. fst (then_do p f) = fst p @ rest"
  by (cases p; cases "snd p") (auto simp: then_do_def split: prod.splits)






















subsection \<open>The dictionary of \<open>create_results_json\<close>\<close>



lemma snd_say: "snd (say l) = Inr ()"
  by (simp add: say_def)







subsection \<open>The rows of \<open>print_results\<close>\<close>

















section \<open>The claims\<close>

subsection \<open>The admittance builder\<close>

text \<open>
  C1. For every line list, \<open>build_admittance_matrices\<close> computes for each line
  \<open>(i, j, r, x)\<close> the values \<open>z_sq = r\<^sup>2 + x\<^sup>2\<close>, \<open>g = r / z_sq\<close>, \<open>b = - x / z_sq\<close>, adds
  \<open>g\<close> to \<open>G[i][i]\<close> and \<open>G[j][j]\<close> and subtracts it from \<open>G[i][j]\<close> and \<open>G[j][i]\<close>
  (likewise \<open>b\<close> for \<open>B\<close>), several lines between the same pair of buses adding up:
  whenever the builder returns, every entry of \<open>G\<close> (of \<open>B\<close>) is the sum over all lines of
  the line's conductance (susceptance) times its incidence at that entry, and the builder
  does return when every line is well formed. The single line \<open>(r = 0.02, x = 0.06)\<close>
  between buses 0 and 1 has \<open>g = 5\<close>, \<open>b = -15\<close> and gives, over two buses,
  \<open>G = [[5, -5], [-5, 5]]\<close> and \<open>B = [[-15, 15], [15, -15]]\<close>.
\<close>

theorem build_admittance_matrices_accumulates:
  fixes ls :: "real line list"
  shows "(build_admittance_matrices n ls = Inr (G, B) \<longrightarrow>
           (\<forall>p<n. \<forall>q<n. G ! p ! q = nodal_sum conductance n ls p q \<and>
                           B ! p ! q = nodal_sum susceptance n ls p q)) \<and>
         ((\<forall>l\<in>set ls. valid_line n l) \<longrightarrow>
            (\<exists>G' B'. build_admittance_matrices n ls = Inr (G', B'))) \<and>
         conductance (0.02 :: real) 0.06 = 5 \<and> susceptance (0.02 :: real) 0.06 = - 15 \<and>
         build_admittance_matrices 2 [(0, 1, 0.02, 0.06 :: real)] =
           Inr ([[5, - 5], [- 5, 5]], [[- 15, 15], [15, - 15]])"
proof (intro conjI impI allI)
  fix p q
  assume "build_admittance_matrices n ls = Inr (G, B)" and "p < n" and "q < n"
  then show "G ! p ! q = nodal_sum conductance n ls p q"
    and "B ! p ! q = nodal_sum susceptance n ls p q"
    by (rule build_closed_form)+
next
  assume "\<forall>l\<in>set ls. valid_line n l"
  then show "\<exists>G' B'. build_admittance_matrices n ls = Inr (G', B')"
    by (rule build_valid)
next
  show "conductance (0.02 :: real) 0.06 = 5"
    by (simp add: conductance_def power2_eq_square)
  show "susceptance (0.02 :: real) 0.06 = - 15"
    by (simp add: susceptance_def power2_eq_square)
  show "build_admittance_matrices 2 [(0, 1, 0.02, 0.06 :: real)] =
           Inr ([[5, - 5], [- 5, 5]], [[- 15, 15], [15, - 15]])"
    by (simp add: build_admittance_matrices_def stamp_line_def iadd_def isub_def bind_err_def
        array_index_def zeros_def setitem_def getitem_def power2_eq_square Let_def
        numeral_2_eq_2)
qed

theorem build_admittance_matrices_accumulates_witness:
  "\<exists>G B. build_admittance_matrices N_BUS LINE_DATA = Inr (G, B) \<and>
     G ! 0 ! 0 = 25 / 4 \<and> G ! 0 ! 1 = - 5 \<and> G ! 0 ! 3 = 0 \<and>
     B ! 0 ! 0 = - 75 / 4 \<and> B ! 0 ! 1 = 15"
proof -
  have v: "\<forall>l\<in>set LINE_DATA. valid_line N_BUS l"
    by (simp add: LINE_DATA_def N_BUS_def valid_line_def)
  note t = build_admittance_matrices_accumulates[of N_BUS LINE_DATA]
  from t v obtain G B where gb: "build_admittance_matrices N_BUS LINE_DATA = Inr (G, B)"
    by blast
  have e: "\<forall>p<N_BUS. \<forall>q<N_BUS. G ! p ! q = nodal_sum conductance N_BUS LINE_DATA p q \<and>
                           B ! p ! q = nodal_sum susceptance N_BUS LINE_DATA p q"
    using build_admittance_matrices_accumulates[of N_BUS LINE_DATA G B] gb by blast
  have "G ! 0 ! 0 = 25 / 4" "G ! 0 ! 1 = - 5" "G ! 0 ! 3 = 0"
       "B ! 0 ! 0 = - 75 / 4" "B ! 0 ! 1 = 15"
    using e
    by (simp_all add: N_BUS_def LINE_DATA_def nodal_sum_def incidence_def bus_of_def
        conductance_def susceptance_def power2_eq_square)
  with gb show ?thesis by blast
qed

text \<open>
  C3. For every line list, the matrices \<open>(G, B)\<close> returned by
  \<open>build_admittance_matrices\<close> are symmetric: \<open>G[i][j] = G[j][i]\<close> and
  \<open>B[i][j] = B[j][i]\<close> for all bus indices. The statement holds for every carrier of the
  arithmetic, since both entries receive the same updates in the same order.
\<close>

theorem build_admittance_matrices_symmetric:
  assumes "build_admittance_matrices n ls = Inr (G, B)" and "p < n" and "q < n"
  shows "G ! p ! q = G ! q ! p \<and> B ! p ! q = B ! q ! p"
proof -
  have "admittance_loop ls (zeros n, zeros n) = Inr (G, B)"
    using assms(1) by (simp add: build_admittance_matrices_def)
  from admittance_loop_symmetric[OF symmetric_zeros symmetric_zeros this]
  show ?thesis using assms(2,3) by (simp add: symmetric_def getitem_def)
qed

theorem build_admittance_matrices_symmetric_witness:
  "\<exists>G B. build_admittance_matrices N_BUS LINE_DATA = Inr (G, B) \<and>
     G ! 1 ! 3 = G ! 3 ! 1 \<and> B ! 1 ! 3 = B ! 3 ! 1 \<and> G ! 1 ! 3 = - 5 / 3"
proof -
  have "\<forall>l\<in>set LINE_DATA. valid_line N_BUS l"
    by (simp add: LINE_DATA_def N_BUS_def valid_line_def)
  then obtain G B where gb: "build_admittance_matrices N_BUS LINE_DATA = Inr (G, B)"
    using build_valid by blast
  have "G ! 1 ! 3 = nodal_sum conductance N_BUS LINE_DATA 1 3"
    using build_closed_form(1)[OF gb, of 1 3] by (simp add: N_BUS_def)
  then have "G ! 1 ! 3 = - 5 / 3"
    by (simp add: N_BUS_def LINE_DATA_def nodal_sum_def incidence_def bus_of_def
        conductance_def power2_eq_square)
  moreover have "G ! 1 ! 3 = G ! 3 ! 1 \<and> B ! 1 ! 3 = B ! 3 ! 1"
    using build_admittance_matrices_symmetric[OF gb, of 1 3] by (simp add: N_BUS_def)
  ultimately show ?thesis using gb by blast
qed



subsection \<open>The models\<close>

text \<open>
  C4. For every bus \<open>i\<close>, the AC model built by \<open>build_ac_model\<close> contains the real-power
  balance \<open>Pg[i] - Pload[i] = \<Sum>\<^sub>k V[i] V[k] (G[i,k] cos(theta[i] - theta[k]) +
  B[i,k] sin(theta[i] - theta[k]))\<close> and the reactive-power balance
  \<open>Qg[i] - Qload[i] = \<Sum>\<^sub>k V[i] V[k] (G[i,k] sin(theta[i] - theta[k]) -
  B[i,k] cos(theta[i] - theta[k]))\<close>, both sums over all buses \<open>k\<close>: the components
  \<open>p_balance\<close> and \<open>q_balance\<close> hold one equality per bus, whose two sides have these
  values at every assignment of the variables.
\<close>

theorem build_ac_model_power_balance:
  assumes "build_ac_model n bd ls = Inr m" and "i < n"
  shows "\<exists>G B ps qs.
     build_admittance_matrices n ls = Inr (G, B) \<and>
     getattr m ''p_balance'' = Inr (ConstraintC ps) \<and> length ps = n \<and>
     getattr m ''q_balance'' = Inr (ConstraintC qs) \<and> length qs = n \<and>
     (\<forall>\<sigma>. eval \<sigma> (fst (ps ! i)) = \<sigma> ''Pg'' i - Pload (bd i) \<and>
          eval \<sigma> (snd (ps ! i)) =
            (\<Sum>k<n. \<sigma> ''V'' i * \<sigma> ''V'' k *
               (G ! i ! k * cos (\<sigma> ''theta'' i - \<sigma> ''theta'' k) +
                B ! i ! k * sin (\<sigma> ''theta'' i - \<sigma> ''theta'' k))) \<and>
          eval \<sigma> (fst (qs ! i)) = \<sigma> ''Qg'' i - Qload (bd i) \<and>
          eval \<sigma> (snd (qs ! i)) =
            (\<Sum>k<n. \<sigma> ''V'' i * \<sigma> ''V'' k *
               (G ! i ! k * sin (\<sigma> ''theta'' i - \<sigma> ''theta'' k) -
                B ! i ! k * cos (\<sigma> ''theta'' i - \<sigma> ''theta'' k))))"
proof -
  from build_ac_model_Inr[OF assms(1)] obtain G B where
    gb: "build_admittance_matrices n ls = Inr (G, B)" by blast
  let ?ps = "map (ac_p_balance_rule n G B (map (\<lambda>i. Pload (bd i)) [0..<n])) [0..<n]"
  let ?qs = "map (ac_q_balance_rule n G B (map (\<lambda>i. Qload (bd i)) [0..<n])) [0..<n]"
  have p: "getattr m ''p_balance'' = Inr (ConstraintC ?ps)"
    and q: "getattr m ''q_balance'' = Inr (ConstraintC ?qs)"
    using build_ac_model_constraints[OF assms(1) gb] by simp_all
  have "\<forall>\<sigma>. eval \<sigma> (fst (?ps ! i)) = \<sigma> ''Pg'' i - Pload (bd i) \<and>
          eval \<sigma> (snd (?ps ! i)) =
            (\<Sum>k<n. \<sigma> ''V'' i * \<sigma> ''V'' k *
               (G ! i ! k * cos (\<sigma> ''theta'' i - \<sigma> ''theta'' k) +
                B ! i ! k * sin (\<sigma> ''theta'' i - \<sigma> ''theta'' k))) \<and>
          eval \<sigma> (fst (?qs ! i)) = \<sigma> ''Qg'' i - Qload (bd i) \<and>
          eval \<sigma> (snd (?qs ! i)) =
            (\<Sum>k<n. \<sigma> ''V'' i * \<sigma> ''V'' k *
               (G ! i ! k * sin (\<sigma> ''theta'' i - \<sigma> ''theta'' k) -
                B ! i ! k * cos (\<sigma> ''theta'' i - \<sigma> ''theta'' k)))"
    using assms(2) by (simp add: eval_ac_p_balance_rule eval_ac_q_balance_rule)
  moreover have "length ?ps = n" "length ?qs = n" by simp_all
  ultimately show ?thesis using gb p q by blast
qed

theorem build_ac_model_power_balance_witness:
  "\<exists>m G B ps qs. build_ac_model N_BUS BUS_DATA LINE_DATA = Inr m \<and>
     build_admittance_matrices N_BUS LINE_DATA = Inr (G, B) \<and>
     getattr m ''p_balance'' = Inr (ConstraintC ps) \<and> length ps = N_BUS \<and>
     getattr m ''q_balance'' = Inr (ConstraintC qs) \<and> length qs = N_BUS \<and>
     eval (\<lambda>name k. 1) (fst (ps ! 1)) = 1 - Pload (BUS_DATA 1) \<and>
     eval (\<lambda>name k. 1) (snd (ps ! 1)) = (\<Sum>k<N_BUS. G ! 1 ! k) \<and>
     eval (\<lambda>name k. 1) (fst (qs ! 1)) = 1 - Qload (BUS_DATA 1) \<and>
     eval (\<lambda>name k. 1) (snd (qs ! 1)) = (\<Sum>k<N_BUS. - B ! 1 ! k)"
proof -
  obtain m where m: "build_ac_model N_BUS BUS_DATA LINE_DATA = Inr m"
    using build_ac_model_valid[OF valid_LINE_DATA, of BUS_DATA] by (auto simp: N_BUS_def)
  have i: "1 < N_BUS" by (simp add: N_BUS_def)
  from build_ac_model_power_balance[OF m i] obtain G B ps qs where
    gb: "build_admittance_matrices N_BUS LINE_DATA = Inr (G, B)"
    and ps: "getattr m ''p_balance'' = Inr (ConstraintC ps)" "length ps = N_BUS"
    and qs: "getattr m ''q_balance'' = Inr (ConstraintC qs)" "length qs = N_BUS"
    and ev: "\<forall>\<sigma>. eval \<sigma> (fst (ps ! 1)) = \<sigma> ''Pg'' 1 - Pload (BUS_DATA 1) \<and>
          eval \<sigma> (snd (ps ! 1)) =
            (\<Sum>k<N_BUS. \<sigma> ''V'' 1 * \<sigma> ''V'' k *
               (G ! 1 ! k * cos (\<sigma> ''theta'' 1 - \<sigma> ''theta'' k) +
                B ! 1 ! k * sin (\<sigma> ''theta'' 1 - \<sigma> ''theta'' k))) \<and>
          eval \<sigma> (fst (qs ! 1)) = \<sigma> ''Qg'' 1 - Qload (BUS_DATA 1) \<and>
          eval \<sigma> (snd (qs ! 1)) =
            (\<Sum>k<N_BUS. \<sigma> ''V'' 1 * \<sigma> ''V'' k *
               (G ! 1 ! k * sin (\<sigma> ''theta'' 1 - \<sigma> ''theta'' k) -
                B ! 1 ! k * cos (\<sigma> ''theta'' 1 - \<sigma> ''theta'' k)))"
    by blast
  from ev[rule_format, of "\<lambda>name k. 1"] m gb ps qs show ?thesis
    by (intro exI[of _ m] exI[of _ G] exI[of _ B] exI[of _ ps] exI[of _ qs]) simp
qed

text \<open>
  C5. For every bus \<open>i\<close>, the DC model built by \<open>build_dc_model\<close> contains the linear
  power balance \<open>Pg[i] - Pload[i] = \<Sum>\<^sub>k B[i,k] (theta[i] - theta[k])\<close>, the sum over all
  buses \<open>k\<close> and \<open>B\<close> the susceptance matrix of the admittance build.
\<close>

theorem build_dc_model_power_balance:
  assumes "build_dc_model n bd ls = Inr m" and "i < n"
  shows "\<exists>G B ps.
     build_admittance_matrices n ls = Inr (G, B) \<and>
     getattr m ''p_balance'' = Inr (ConstraintC ps) \<and> length ps = n \<and>
     (\<forall>\<sigma>. eval \<sigma> (fst (ps ! i)) = \<sigma> ''Pg'' i - Pload (bd i) \<and>
          eval \<sigma> (snd (ps ! i)) =
            (\<Sum>k<n. B ! i ! k * (\<sigma> ''theta'' i - \<sigma> ''theta'' k)))"
proof -
  from build_dc_model_Inr[OF assms(1)] obtain G B where
    gb: "build_admittance_matrices n ls = Inr (G, B)" by blast
  let ?ps = "map (dc_p_balance_rule n B (map (\<lambda>i. Pload (bd i)) [0..<n])) [0..<n]"
  have p: "getattr m ''p_balance'' = Inr (ConstraintC ?ps)"
    using build_dc_model_constraints[OF assms(1) gb] by simp
  have "\<forall>\<sigma>. eval \<sigma> (fst (?ps ! i)) = \<sigma> ''Pg'' i - Pload (bd i) \<and>
          eval \<sigma> (snd (?ps ! i)) =
            (\<Sum>k<n. B ! i ! k * (\<sigma> ''theta'' i - \<sigma> ''theta'' k))"
    using assms(2) by (simp add: eval_dc_p_balance_rule)
  moreover have "length ?ps = n" by simp
  ultimately show ?thesis using gb p by blast
qed

theorem build_dc_model_power_balance_witness:
  "\<exists>m G B ps. build_dc_model N_BUS BUS_DATA LINE_DATA = Inr m \<and>
     build_admittance_matrices N_BUS LINE_DATA = Inr (G, B) \<and>
     getattr m ''p_balance'' = Inr (ConstraintC ps) \<and> length ps = N_BUS \<and>
     eval (\<lambda>name k. if k = 4 then 1 else 0) (fst (ps ! 4)) = 1 - Pload (BUS_DATA 4) \<and>
     eval (\<lambda>name k. if k = 4 then 1 else 0) (snd (ps ! 4)) = (\<Sum>k<4. B ! 4 ! k)"
proof -
  obtain m where m: "build_dc_model N_BUS BUS_DATA LINE_DATA = Inr m"
    using build_dc_model_valid[OF valid_LINE_DATA, of BUS_DATA] by (auto simp: N_BUS_def)
  have i: "4 < N_BUS" by (simp add: N_BUS_def)
  from build_dc_model_power_balance[OF m i] obtain G B ps where
    gb: "build_admittance_matrices N_BUS LINE_DATA = Inr (G, B)"
    and ps: "getattr m ''p_balance'' = Inr (ConstraintC ps)" "length ps = N_BUS"
    and ev: "\<forall>\<sigma>. eval \<sigma> (fst (ps ! 4)) = \<sigma> ''Pg'' 4 - Pload (BUS_DATA 4) \<and>
          eval \<sigma> (snd (ps ! 4)) =
            (\<Sum>k<N_BUS. B ! 4 ! k * (\<sigma> ''theta'' 4 - \<sigma> ''theta'' k))"
    by blast
  have "(\<Sum>k<N_BUS. B ! 4 ! k * ((if (4::nat) = 4 then 1 else 0) - (if k = 4 then 1 else 0))) =
        (\<Sum>k<4. B ! 4 ! k)"
    by (simp add: N_BUS_def eval_nat_numeral lessThan_Suc)
  with ev[rule_format, of "\<lambda>name k. if k = 4 then 1 else 0"] m gb ps show ?thesis
    by (intro exI[of _ m] exI[of _ G] exI[of _ B] exI[of _ ps]) simp
qed

text \<open>
  C6. The objective of the DC model built by \<open>build_dc_model\<close> is the minimisation of
  the linear sum over the generator buses of \<open>b \<cdot> Pg\<close> only: its value at every assignment
  is that sum, and replacing the coefficients \<open>a\<close> and \<open>c\<close> of the bus table by any other
  numbers leaves the objective unchanged.
\<close>

theorem build_dc_model_objective:
  assumes "build_dc_model n bd ls = Inr m"
  shows "\<exists>e. getattr m ''obj'' = Inr (ObjectiveC e minimize) \<and>
     (\<forall>\<sigma>. eval \<sigma> e = (\<Sum>i\<leftarrow>GEN_BUSES n bd. cost_b (bd i) * \<sigma> ''Pg'' i)) \<and>
     (\<forall>a' c' m'.
        build_dc_model n (\<lambda>i. (bd i)\<lparr>cost_a := a' i, cost_c := c' i\<rparr>) ls = Inr m' \<longrightarrow>
        getattr m' ''obj'' = Inr (ObjectiveC e minimize))"
proof -
  let ?e = "py_sum (map (\<lambda>i. MulE (Num (cost_b (bd i))) (VarE ''Pg'' i)) (GEN_BUSES n bd))"
  have 1: "getattr m ''obj'' = Inr (ObjectiveC ?e minimize)"
    using assms by (rule build_dc_model_obj)
  have 2: "eval \<sigma> ?e = (\<Sum>i\<leftarrow>GEN_BUSES n bd. cost_b (bd i) * \<sigma> ''Pg'' i)" for \<sigma>
    by (simp add: eval_py_sum o_def)
  have 3: "getattr m' ''obj'' = Inr (ObjectiveC ?e minimize)"
    if "build_dc_model n (\<lambda>i. (bd i)\<lparr>cost_a := a' i, cost_c := c' i\<rparr>) ls = Inr m'"
    for a' c' m'
  proof -
    have "GEN_BUSES n (\<lambda>i. (bd i)\<lparr>cost_a := a' i, cost_c := c' i\<rparr>) = GEN_BUSES n bd"
      by (rule GEN_BUSES_cong) simp
    then show ?thesis using build_dc_model_obj[OF that] by simp
  qed
  from 1 2 3 show ?thesis by blast
qed

theorem build_dc_model_objective_witness:
  "\<exists>m e. build_dc_model N_BUS BUS_DATA LINE_DATA = Inr m \<and>
     getattr m ''obj'' = Inr (ObjectiveC e minimize) \<and>
     GEN_BUSES N_BUS BUS_DATA = [0, 1, 2] \<and>
     eval (\<lambda>name i. 1) e = 50 \<and>
     (\<exists>m'. build_dc_model N_BUS (\<lambda>i. (BUS_DATA i)\<lparr>cost_a := 7, cost_c := 9\<rparr>) LINE_DATA = Inr m' \<and>
        getattr m' ''obj'' = Inr (ObjectiveC e minimize))"
proof -
  obtain m where m: "build_dc_model N_BUS BUS_DATA LINE_DATA = Inr m"
    using build_dc_model_valid[OF valid_LINE_DATA, of BUS_DATA] by (auto simp: N_BUS_def)
  obtain m' where m':
    "build_dc_model N_BUS (\<lambda>i. (BUS_DATA i)\<lparr>cost_a := 7, cost_c := 9\<rparr>) LINE_DATA = Inr m'"
    using build_dc_model_valid[OF valid_LINE_DATA] by (auto simp: N_BUS_def)
  have g: "GEN_BUSES N_BUS BUS_DATA = [0, 1, 2]"
    by (simp add: GEN_BUSES_def N_BUS_def BUS_DATA_def upt_rec[of _ 5] upt_rec[of _ "Suc _"]
        eval_nat_numeral)
  from build_dc_model_objective[OF m] obtain e where
    e: "getattr m ''obj'' = Inr (ObjectiveC e minimize)"
    and v: "\<forall>\<sigma>. eval \<sigma> e = (\<Sum>i\<leftarrow>GEN_BUSES N_BUS BUS_DATA. cost_b (BUS_DATA i) * \<sigma> ''Pg'' i)"
    and a: "\<forall>a' c' m'.
        build_dc_model N_BUS (\<lambda>i. (BUS_DATA i)\<lparr>cost_a := a' i, cost_c := c' i\<rparr>) LINE_DATA = Inr m' \<longrightarrow>
        getattr m' ''obj'' = Inr (ObjectiveC e minimize)"
    by blast
  have "eval (\<lambda>name i. 1) e = (\<Sum>i\<leftarrow>[0, 1, 2]. cost_b (BUS_DATA i))"
    using v[rule_format, of "\<lambda>name i. 1"] by (simp only: g mult_1_right)
  then have "eval (\<lambda>name i. 1) e = 50"
    by (simp add: BUS_DATA_def)
  moreover have "getattr m' ''obj'' = Inr (ObjectiveC e minimize)"
    by (rule a[rule_format, OF m'])
  ultimately show ?thesis using m m' e g by blast
qed






subsection \<open>The reporters\<close>






end
